theory Spec2Isabelle
  imports Main "HOL-Library.Word" "HOL-Library.Multiset"
begin

unbundle bit_operations_syntax

section \<open>Machine arithmetic and platform constants\<close>

text \<open>
  Values of the C types \<^verbatim>\<open>unsigned\<close> (32 bits) and \<^verbatim>\<open>loff_t\<close> (signed, 64 bits)
  are integers; every operation that can leave the range of its type is followed by the
  reduction that the machine performs.
\<close>

definition u32 :: "int \<Rightarrow> int" where
  "u32 x = x mod 2 ^ 32"

definition s64 :: "int \<Rightarrow> int" where
  "s64 x = (x + 2 ^ 63) mod 2 ^ 64 - 2 ^ 63"

text \<open>
  \<^verbatim>\<open>PAGE_SHIFT\<close> and \<^verbatim>\<open>SECTOR_SIZE\<close> come from architecture and block-layer headers
  that are not part of the sources at hand; the values are those of a 4 KiB-page machine.
\<close>

definition PAGE_SHIFT :: nat where
  "PAGE_SHIFT = 12"

definition PAGE_SIZE :: int where
  "PAGE_SIZE = 2 ^ PAGE_SHIFT"


definition offset_in_page :: "int \<Rightarrow> int" where
  \<comment> \<open>\<^verbatim>\<open>p & ~PAGE_MASK\<close>: the low \<^verbatim>\<open>PAGE_SHIFT\<close> bits, also of a negative offset\<close>
  "offset_in_page p = p mod PAGE_SIZE"

definition i_blocksize :: "nat \<Rightarrow> int" where
  \<comment> \<open>\<^verbatim>\<open>1 << inode->i_blkbits\<close>, an \<^verbatim>\<open>unsigned int\<close>\<close>
  "i_blocksize blkbits = u32 (2 ^ blkbits)"

section \<open>Pages and their per-block state\<close>

text \<open>
  \<^verbatim>\<open>struct iomap_page\<close>: two atomic counters and the bitmap of uptodate blocks. The
  bitmap is the set of the indices whose bit is set.
\<close>

record iomap_page =
  read_count :: int
  write_count :: int
  uptodate :: "int set"

text \<open>
  The part of \<^verbatim>\<open>struct page\<close> that the buffered I/O code reads and writes: the page
  flags, the page index and the private pointer (\<^verbatim>\<open>to_iomap_page\<close>), which is
  \<open>None\<close> when the block size equals the page size.
\<close>

record page =
  pg_index :: int
  pg_uptodate :: bool
  pg_dirty :: bool
  pg_writeback :: bool
  pg_locked :: bool
  pg_error :: bool
  pg_private :: "iomap_page option"

text \<open>
  A bio: its start sector, the bytes it carries, its completion status and its segments
  (page index, length and offset inside the page).
\<close>

record bio_vec =
  bv_page :: int
  bv_len :: int
  bv_offset :: int

record bio =
  bi_sector :: int
  bi_size :: int
  bi_status :: int
  bi_io_vec :: "bio_vec list"

definition test_bit_bitmap :: "int \<Rightarrow> int set \<Rightarrow> bool" where
  "test_bit_bitmap i bits = (i \<in> bits)"

definition set_bit_bitmap :: "int \<Rightarrow> int set \<Rightarrow> int set" where
  "set_bit_bitmap i bits = insert i bits"

definition SetPageUptodate :: "page \<Rightarrow> page" where
  "SetPageUptodate p = p\<lparr>pg_uptodate := True\<rparr>"

definition ClearPageUptodate :: "page \<Rightarrow> page" where
  "ClearPageUptodate p = p\<lparr>pg_uptodate := False\<rparr>"

definition SetPageError :: "page \<Rightarrow> page" where
  "SetPageError p = p\<lparr>pg_error := True\<rparr>"

definition unlock_page :: "page \<Rightarrow> page" where
  "unlock_page p = p\<lparr>pg_locked := False\<rparr>"

subsection \<open>\<^verbatim>\<open>iomap_set_range_uptodate\<close>\<close>

text \<open>
  The loop over the blocks of the page: \<open>i\<close> runs from its start value up to
  \<open>n = PAGE_SIZE / i_blocksize(inode)\<close>; a block inside \<open>[first, last]\<close> (here \<open>first_blk\<close>, \<open>last_blk\<close>) gets its bit
  set, a block outside whose bit is clear makes the local \<open>uptodate\<close> false.
\<close>

function set_range_loop :: "int \<Rightarrow> int \<Rightarrow> int \<Rightarrow> int \<Rightarrow> int set \<Rightarrow> bool \<Rightarrow> int set \<times> bool" where
  "set_range_loop n first_blk last_blk i bits utd =
     (if i < n then
        (if i \<ge> first_blk \<and> i \<le> last_blk
         then set_range_loop n first_blk last_blk (i + 1) (set_bit_bitmap i bits) utd
         else if \<not> test_bit_bitmap i bits then set_range_loop n first_blk last_blk (i + 1) bits False
         else set_range_loop n first_blk last_blk (i + 1) bits utd)
      else (bits, utd))"
  by pat_completeness auto
termination
  by (relation "measure (\<lambda>(n, first_blk, last_blk, i, bits, utd). nat (n - i))") auto

declare set_range_loop.simps [simp del]

definition iomap_set_range_uptodate :: "nat \<Rightarrow> page \<Rightarrow> int \<Rightarrow> int \<Rightarrow> page" where
  "iomap_set_range_uptodate blkbits p off len =
     (let first_blk = off div 2 ^ blkbits;
          last_blk = u32 (off + len - 1) div 2 ^ blkbits;
          (p1, utd) =
            (case pg_private p of
               None \<Rightarrow> (p, True)
             | Some iop \<Rightarrow>
                 (let (bits, u) = set_range_loop (PAGE_SIZE div i_blocksize blkbits) first_blk last_blk 0
                                    (uptodate iop) True
                  in (p\<lparr>pg_private := Some (iop\<lparr>uptodate := bits\<rparr>)\<rparr>, u)))
      in if utd \<and> \<not> pg_error p1 then SetPageUptodate p1 else p1)"

subsection \<open>The end of a buffered write: \<^verbatim>\<open>__iomap_write_end\<close>\<close>

definition iomap_set_page_dirty :: "page \<Rightarrow> page" where
  \<comment> \<open>\<^verbatim>\<open>TestSetPageDirty\<close>; the accounting of newly dirtied pages is outside the page\<close>
  "iomap_set_page_dirty p = p\<lparr>pg_dirty := True\<rparr>"

definition raw_iomap_write_end :: "nat \<Rightarrow> int \<Rightarrow> int \<Rightarrow> int \<Rightarrow> page \<Rightarrow> int \<times> page" where
  \<comment> \<open>the source's \<^verbatim>\<open>__iomap_write_end\<close>; \<^verbatim>\<open>flush_dcache_page\<close> touches no modelled state\<close>
  "raw_iomap_write_end blkbits pos len copied p =
     (if copied < len \<and> \<not> pg_uptodate p then (0, p)
      else (copied, iomap_set_page_dirty
                      (iomap_set_range_uptodate blkbits p (offset_in_page pos) len)))"

text \<open>
  The blocks that a byte range \<open>[off, off + len)\<close> of the page covers: block \<open>b\<close> holds
  the bytes \<open>[b * 2 ^ blkbits, (b + 1) * 2 ^ blkbits)\<close>, and is covered when the two
  intervals meet.
\<close>

definition blocks_covered :: "nat \<Rightarrow> int \<Rightarrow> int \<Rightarrow> int set" where
  "blocks_covered blkbits off len =
     {b. b * 2 ^ blkbits < off + len \<and> off < (b + 1) * 2 ^ blkbits}"

section \<open>Effects outside the page\<close>

text \<open>
  What the code does to the world outside the structures modelled here is recorded as a
  list of events, in the order of the calls: unlocking a page, handing a bio to the block
  layer, completing a bio, zeroing bytes of a page, the hooks of the file system.
\<close>

datatype event =
    Unlock_page int
  | Submit_bio bio
  | Submit_bio_wait bio
  | Bio_endio bio
  | Zero_user int int int
  | Discard_page int
  | End_page_writeback int
  | Mapping_set_error int
  | Warn_on_once

section \<open>Completion of reads\<close>

definition s32 :: "int \<Rightarrow> int" where
  "s32 x = (x + 2 ^ 31) mod 2 ^ 32 - 2 ^ 31"

definition atomic_dec_and_test :: "int \<Rightarrow> int \<times> bool" where
  \<comment> \<open>one indivisible step: the decremented counter and whether it is now zero\<close>
  "atomic_dec_and_test v = (let v' = s32 (v - 1) in (v', v' = 0))"

definition iomap_read_finish :: "page \<Rightarrow> page \<times> event list" where
  "iomap_read_finish p =
     (case pg_private p of
        None \<Rightarrow> (unlock_page p, [Unlock_page (pg_index p)])
      | Some iop \<Rightarrow>
          (let (c, zero) = atomic_dec_and_test (read_count iop);
               p1 = p\<lparr>pg_private := Some (iop\<lparr>read_count := c\<rparr>)\<rparr>
           in if zero then (unlock_page p1, [Unlock_page (pg_index p1)]) else (p1, [])))"

definition iomap_read_page_end_io :: "nat \<Rightarrow> bio_vec \<Rightarrow> int \<Rightarrow> page \<Rightarrow> page \<times> event list" where
  "iomap_read_page_end_io blkbits bvec error p =
     iomap_read_finish
       (if error \<noteq> 0 then SetPageError (ClearPageUptodate p)
        else iomap_set_range_uptodate blkbits p (bv_offset bvec) (bv_len bvec))"

text \<open>
  The completions of the sub-ranges of one page, in the order in which they happen to
  run: each is a segment with the error of its bio. The decrement is atomic, so
  completions that run concurrently act on the counter one after the other, in some order.
\<close>

fun read_completions :: "nat \<Rightarrow> (bio_vec \<times> int) list \<Rightarrow> page \<Rightarrow> page \<times> event list" where
  "read_completions blkbits [] p = (p, [])"
| "read_completions blkbits ((bvec, error) # cs) p =
     (let (p1, ev1) = iomap_read_page_end_io blkbits bvec error p;
          (p2, ev2) = read_completions blkbits cs p1
      in (p2, ev1 @ ev2))"

text \<open>A locked page of two 2048-byte blocks under read, and the segments of its two reads.\<close>

definition page_two_reads :: page where
  "page_two_reads = \<lparr>pg_index = 5, pg_uptodate = False, pg_dirty = False, pg_writeback = False,
     pg_locked = True, pg_error = False,
     pg_private = Some \<lparr>read_count = 2, write_count = 0, uptodate = {}\<rparr>\<rparr>"

definition seg_lo :: bio_vec where
  "seg_lo = \<lparr>bv_page = 5, bv_len = 2048, bv_offset = 0\<rparr>"

definition seg_hi :: bio_vec where
  "seg_hi = \<lparr>bv_page = 5, bv_len = 2048, bv_offset = 2048\<rparr>"

section \<open>Reading one page: \<^verbatim>\<open>iomap_readpage\<close>\<close>

text \<open>
  \<^verbatim>\<open>struct iomap_readpage_ctx\<close> for a single page, together with the events so far.
\<close>

record readpage_ctx =
  cur_page :: page
  cur_page_in_bio :: bool
  ctx_bio :: "bio option"
  events :: "event list"

text \<open>
  \<^verbatim>\<open>iomap_apply\<close> lives in a file that is not among the sources at hand, so the run of
  \<^verbatim>\<open>iomap_apply(inode, pos, length, 0, ops, &ctx, iomap_readpage_actor)\<close> is a parameter
  of the model: a function of the context, the position and the length that returns the
  bytes processed or a negative error, and the context as the actor left it.
\<close>

type_synonym iomap_apply_fn = "readpage_ctx \<Rightarrow> int \<Rightarrow> int \<Rightarrow> int \<times> readpage_ctx"

definition page_offset :: "page \<Rightarrow> int" where
  "page_offset p = s64 (pg_index p * PAGE_SIZE)"

definition warn_on_once :: "bool \<Rightarrow> readpage_ctx \<Rightarrow> readpage_ctx" where
  "warn_on_once c st = (if c then st\<lparr>events := events st @ [Warn_on_once]\<rparr> else st)"

text \<open>
  The loop of \<^verbatim>\<open>iomap_readpage\<close> over the page. \<open>ret\<close> is the local variable of that
  name, \<open>None\<close> before the first call of \<^verbatim>\<open>iomap_apply\<close>. The loop need not end for
  every \<^verbatim>\<open>iomap_apply\<close> (\<^verbatim>\<open>poff += ret\<close> truncates to 32 bits), so not returning is
  the value \<open>None\<close>.
\<close>

partial_function (option) readpage_loop ::
  "iomap_apply_fn \<Rightarrow> int \<Rightarrow> int option \<Rightarrow> readpage_ctx \<Rightarrow> (int option \<times> readpage_ctx) option" where
  "readpage_loop ap poff ret st =
     (if poff < PAGE_SIZE then
        (let (r, st1) = ap st (s64 (page_offset (cur_page st) + poff)) (PAGE_SIZE - poff)
         in if r \<le> 0 then
              Some (Some r, (warn_on_once (r = 0) st1)\<lparr>cur_page := SetPageError (cur_page (warn_on_once (r = 0) st1))\<rparr>)
            else readpage_loop ap (u32 (poff + r)) (Some r) st1)
      else Some (ret, st))"

definition readpage_init :: "page \<Rightarrow> readpage_ctx" where
  "readpage_init p = \<lparr>cur_page = p, cur_page_in_bio = False, ctx_bio = None, events = []\<rparr>"

definition iomap_readpage :: "iomap_apply_fn \<Rightarrow> page \<Rightarrow> (int \<times> readpage_ctx) option" where
  "iomap_readpage ap p =
     (case readpage_loop ap 0 None (readpage_init p) of
        None \<Rightarrow> None
      | Some (ret, st) \<Rightarrow>
          Some (0,
            (case ctx_bio st of
               Some b \<Rightarrow> warn_on_once (\<not> cur_page_in_bio st) (st\<lparr>events := events st @ [Submit_bio b]\<rparr>)
             | None \<Rightarrow>
                 (let st1 = warn_on_once (cur_page_in_bio st) st
                  in st1\<lparr>cur_page := unlock_page (cur_page st1),
                         events := events st1 @ [Unlock_page (pg_index (cur_page st1))]\<rparr>))))"


text \<open>
  An \<^verbatim>\<open>iomap_apply\<close> that maps the first 1024 bytes and then fails with \<^verbatim>\<open>-EIO\<close>,
  and a locked page without per-block state.
\<close>

definition apply_fails_second :: iomap_apply_fn where
  "apply_fails_second st pos len = (if pos < 1024 \<and> 1024 \<le> len then (1024, st) else (- 5, st))"

definition page_locked_clean :: page where
  "page_locked_clean = \<lparr>pg_index = 0, pg_uptodate = False, pg_dirty = False, pg_writeback = False,
     pg_locked = True, pg_error = False, pg_private = None\<rparr>"

section \<open>The range of a page that has to be read: \<^verbatim>\<open>iomap_adjust_read_range\<close>\<close>













section \<open>Extents, bios and ioends\<close>

text \<open>
  The extent types and the extent flags are declared in \<^verbatim>\<open>linux/iomap.h\<close>, which is not
  among the sources at hand. The types are an enumeration; of the flags the code below
  uses \<^verbatim>\<open>IOMAP_F_NEW\<close> and \<^verbatim>\<open>IOMAP_F_SHARED\<close>, two distinct bits of the 16-bit
  flag word (the values are those of the kernel header).
\<close>

datatype iomap_type = IOMAP_HOLE | IOMAP_DELALLOC | IOMAP_MAPPED | IOMAP_UNWRITTEN | IOMAP_INLINE





subsection \<open>Merging ioends\<close>









section \<open>Zeroing a range: \<^verbatim>\<open>iomap_zero_range\<close>\<close>

text \<open>
  \<^verbatim>\<open>struct iomap\<close>, the extent that the mapper of the file system returns (declared in
  \<^verbatim>\<open>linux/iomap.h\<close>): the byte range of the file it maps, its type, its flags and its
  address on the device.
\<close>

record iomap =
  iomap_offset :: int
  iomap_length :: int
  iomap_type :: iomap_type
  iomap_flags :: "16 word"
  iomap_addr :: int

text \<open>
  The state that zeroing acts on: the caller's flag \<^verbatim>\<open>*did_zero\<close> (\<open>None\<close> when the
  pointer is null) and the world \<open>'w\<close> of page cache and device. The actor touches the
  world only through \<^verbatim>\<open>iomap_zero\<close> (write begin, zero the bytes in the page, write
  end) and \<^verbatim>\<open>iomap_dax_zero\<close> (zero the bytes on the device); both are parameters,
  taking the position, the offset in the page and the byte count, and returning the
  status with the new world.
\<close>

record 'w zero_state =
  did_zero :: "bool option"
  world :: 'w

type_synonym 'w zero_fn = "'w \<Rightarrow> int \<Rightarrow> int \<Rightarrow> int \<Rightarrow> int \<times> 'w"

text \<open>
  The \<^verbatim>\<open>do ... while (count > 0)\<close> loop of the actor. \<open>cnt\<close> is the source's \<open>count\<close>;
  \<open>cnt - bytes\<close> cannot leave the range of \<^verbatim>\<open>loff_t\<close>, as \<open>bytes\<close> is the low 32 bits
  of a value that is at most \<open>cnt\<close>.
\<close>

function zero_range_loop ::
  "bool \<Rightarrow> 'w zero_fn \<Rightarrow> 'w zero_fn \<Rightarrow> int \<Rightarrow> int \<Rightarrow> int \<Rightarrow> 'w zero_state \<Rightarrow> int \<times> 'w zero_state" where
  "zero_range_loop is_dax dax_zero page_zero pos cnt written st =
     (let offset = offset_in_page pos;
          bytes = u32 (min (PAGE_SIZE - offset) cnt);
          (status, w1) = (if is_dax then dax_zero (world st) pos offset bytes
                          else page_zero (world st) pos offset bytes)
      in if status < 0 then (status, st\<lparr>world := w1\<rparr>)
         else
           (let st2 = st\<lparr>world := w1, did_zero := (case did_zero st of None \<Rightarrow> None | Some _ \<Rightarrow> Some True)\<rparr>
            in if cnt - bytes > 0
               then zero_range_loop is_dax dax_zero page_zero (s64 (pos + bytes)) (cnt - bytes)
                      (written + bytes) st2
               else (written + bytes, st2)))"
  by pat_completeness auto
termination
proof (relation "measure (\<lambda>(is_dax, dax_zero, page_zero, pos, cnt, written, st). nat cnt)", goal_cases)
  case 1
  show ?case by simp
next
  case (2 is_dax dax_zero page_zero pos cnt written st offset bytes x status w1 st2)
  have o: "0 \<le> offset_in_page pos" "offset_in_page pos < PAGE_SIZE"
    by (simp_all add: offset_in_page_def PAGE_SIZE_def)
  have "0 < bytes"
  proof (cases "0 < cnt")
    case True
    then have "0 < min (PAGE_SIZE - offset_in_page pos) cnt" "min (PAGE_SIZE - offset_in_page pos) cnt < 2 ^ 32"
      using o by (auto simp: PAGE_SIZE_def PAGE_SHIFT_def)
    then show ?thesis using 2 by (simp add: u32_def)
  next
    case False
    have "0 \<le> bytes" using 2 by (simp add: u32_def)
    then show ?thesis using 2 False by simp
  qed
  then show ?case using 2 by simp
qed

declare zero_range_loop.simps [simp del]

definition iomap_zero_range_actor ::
  "bool \<Rightarrow> 'w zero_fn \<Rightarrow> 'w zero_fn \<Rightarrow> 'w zero_state \<Rightarrow> int \<Rightarrow> int \<Rightarrow> iomap \<Rightarrow> int \<times> 'w zero_state" where
  "iomap_zero_range_actor is_dax dax_zero page_zero st pos cnt iomap =
     (if iomap_type iomap = IOMAP_HOLE \<or> iomap_type iomap = IOMAP_UNWRITTEN then (cnt, st)
      else zero_range_loop is_dax dax_zero page_zero pos cnt 0 st)"

text \<open>
  Modelled from the spec: \<^verbatim>\<open>iomap_apply\<close>, whose file is not among the sources at hand.
  After the spec's RangeApplicator: ask the mapper for the extent covering \<open>pos\<close> and
  invoke the actor on \<open>min(length, extentRemaining)\<close> with that extent; an error of the
  mapper is returned as it is. The repetition that the spec describes is the loop of the
  callers in the source, here \<^verbatim>\<open>iomap_zero_range\<close>.
\<close>

type_synonym mapper = "int \<Rightarrow> int \<Rightarrow> int + iomap"

definition iomap_apply ::
  "mapper \<Rightarrow> ('s \<Rightarrow> int \<Rightarrow> int \<Rightarrow> iomap \<Rightarrow> int \<times> 's) \<Rightarrow> 's \<Rightarrow> int \<Rightarrow> int \<Rightarrow> int \<times> 's" where
  "iomap_apply mapper actor st pos len =
     (case mapper pos len of
        Inl err \<Rightarrow> (err, st)
      | Inr iomap \<Rightarrow> actor st pos (min len (iomap_offset iomap + iomap_length iomap - pos)) iomap)"

text \<open>The loop of \<^verbatim>\<open>iomap_zero_range\<close>, for any function in the place of
  \<^verbatim>\<open>iomap_apply\<close>.\<close>

function zero_range_while ::
  "('s \<Rightarrow> int \<Rightarrow> int \<Rightarrow> int \<times> 's) \<Rightarrow> 's \<Rightarrow> int \<Rightarrow> int \<Rightarrow> int \<times> 's" where
  "zero_range_while ap st pos len =
     (if len > 0 then
        (let (ret, st1) = ap st pos len
         in if ret \<le> 0 then (ret, st1)
            else zero_range_while ap st1 (s64 (pos + ret)) (len - ret))
      else (0, st))"
  by pat_completeness auto
termination
  by (relation "measure (\<lambda>(ap, st, pos, len). nat len)") auto

declare zero_range_while.simps [simp del]

definition iomap_zero_range ::
  "mapper \<Rightarrow> bool \<Rightarrow> 'w zero_fn \<Rightarrow> 'w zero_fn \<Rightarrow> 'w zero_state \<Rightarrow> int \<Rightarrow> int \<Rightarrow> int \<times> 'w zero_state" where
  "iomap_zero_range mapper is_dax dax_zero page_zero st pos len =
     zero_range_while (iomap_apply mapper (iomap_zero_range_actor is_dax dax_zero page_zero)) st pos len"


text \<open>
  A range of the file reads as zero when the mapper answers every position of the range,
  for every positive length, with a hole or an unwritten extent that contains the
  position.
\<close>

definition logically_zero :: "iomap \<Rightarrow> bool" where
  "logically_zero iomap = (iomap_type iomap = IOMAP_HOLE \<or> iomap_type iomap = IOMAP_UNWRITTEN)"

definition maps_zero_range :: "mapper \<Rightarrow> int \<Rightarrow> int \<Rightarrow> bool" where
  "maps_zero_range mapper pos len =
     (\<forall>p l. pos \<le> p \<and> p < pos + len \<and> 0 < l \<longrightarrow>
        (\<exists>iomap. mapper p l = Inr iomap \<and> logically_zero iomap \<and>
           iomap_offset iomap \<le> p \<and> p < iomap_offset iomap + iomap_length iomap))"

text \<open>
  A mapper with a hole over the first page and an unwritten extent behind it, and a
  zeroing function that records the bytes it is asked to zero.
\<close>

definition hole_then_unwritten :: mapper where
  "hole_then_unwritten p l =
     (if p < 4096
      then Inr \<lparr>iomap_offset = 0, iomap_length = 4096, iomap_type = IOMAP_HOLE, iomap_flags = 0,
                 iomap_addr = 0\<rparr>
      else Inr \<lparr>iomap_offset = 4096, iomap_length = 2 ^ 40, iomap_type = IOMAP_UNWRITTEN,
                 iomap_flags = 0, iomap_addr = 64\<rparr>)"

definition logging_zero :: "event list zero_fn" where
  "logging_zero w pos offset bytes = (bytes, w @ [Zero_user (pos div PAGE_SIZE) offset (offset + bytes)])"

section \<open>The begin of a buffered write: \<^verbatim>\<open>__iomap_write_begin\<close>\<close>





















section \<open>Writeback of one page: \<^verbatim>\<open>iomap_writepage_map\<close>\<close>























section \<open>Properties of the block bitmap\<close>

subsection \<open>Arithmetic of block indices\<close>

lemma mult_le_iff_le_div:
  fixes m b x :: int
  assumes "0 < m"
  shows "(b * m \<le> x) = (b \<le> x div m)"
proof
  assume h: "b * m \<le> x"
  show "b \<le> x div m"
  proof (rule ccontr)
    assume "\<not> b \<le> x div m"
    then have "x div m + 1 \<le> b" by simp
    then have "(x div m + 1) * m \<le> b * m" using assms by (intro mult_right_mono) auto
    moreover have "x < (x div m + 1) * m"
    proof -
      have "x = m * (x div m) + x mod m" by simp
      moreover have "x mod m < m" using assms by simp
      moreover have "(x div m + 1) * m = m * (x div m) + m" by (simp add: algebra_simps)
      ultimately show ?thesis by linarith
    qed
    ultimately show False using h by linarith
  qed
next
  assume "b \<le> x div m"
  then have "b * m \<le> (x div m) * m" using assms by (intro mult_right_mono) auto
  moreover have "(x div m) * m \<le> x"
  proof -
    have "x = m * (x div m) + x mod m" by simp
    moreover have "0 \<le> x mod m" using assms by simp
    moreover have "(x div m) * m = m * (x div m)" by simp
    ultimately show ?thesis by linarith
  qed
  ultimately show "b * m \<le> x" by linarith
qed

lemma less_mult_iff_div_le:
  fixes m b x :: int
  assumes "0 < m"
  shows "(x < (b + 1) * m) = (x div m \<le> b)"
  using mult_le_iff_le_div [OF assms, of "b + 1" x] by linarith

subsection \<open>Setting a range uptodate\<close>

lemma set_range_loop_eq:
  "set_range_loop n f l i bits utd =
     (bits \<union> {j. i \<le> j \<and> j < n \<and> f \<le> j \<and> j \<le> l},
      utd \<and> (\<forall>j. i \<le> j \<and> j < n \<and> \<not> (f \<le> j \<and> j \<le> l) \<longrightarrow> j \<in> bits))"
proof (induction n f l i bits utd rule: set_range_loop.induct)
  case (1 n f l i bits utd)
  show ?case
  proof (cases "i < n")
    case False
    then show ?thesis by (subst set_range_loop.simps) auto
  next
    case True
    note lt = this
    show ?thesis
    proof (cases "i \<ge> f \<and> i \<le> l")
      case True
      have "{j. i \<le> j \<and> j < n \<and> f \<le> j \<and> j \<le> l} = insert i {j. i + 1 \<le> j \<and> j < n \<and> f \<le> j \<and> j \<le> l}"
        using True lt by auto
      moreover have "(\<forall>j. i \<le> j \<and> j < n \<and> \<not> (f \<le> j \<and> j \<le> l) \<longrightarrow> j \<in> bits)
         = (\<forall>j. i + 1 \<le> j \<and> j < n \<and> \<not> (f \<le> j \<and> j \<le> l) \<longrightarrow> j \<in> insert i bits)"
        using True by (metis add1_zle_eq insert_iff order_le_less)
      ultimately show ?thesis
        using True lt "1.IH"(1) by (subst set_range_loop.simps) (simp add: set_bit_bitmap_def)
    next
      case False
      note nin = this
      have seteq: "{j. i \<le> j \<and> j < n \<and> f \<le> j \<and> j \<le> l} = {j. i + 1 \<le> j \<and> j < n \<and> f \<le> j \<and> j \<le> l}"
        using False by (auto simp: order_le_less)
      have alleq: "(\<forall>j. i \<le> j \<and> j < n \<and> \<not> (f \<le> j \<and> j \<le> l) \<longrightarrow> j \<in> bits)
         = (i \<in> bits \<and> (\<forall>j. i + 1 \<le> j \<and> j < n \<and> \<not> (f \<le> j \<and> j \<le> l) \<longrightarrow> j \<in> bits))"
        using False lt by (metis add1_zle_eq order_le_less)
      show ?thesis
      proof (cases "test_bit_bitmap i bits")
        case True
        have "set_range_loop n f l i bits utd = set_range_loop n f l (i + 1) bits utd"
          using True nin lt by (subst set_range_loop.simps) auto
        also note "1.IH"(3) [OF lt nin]
        finally show ?thesis
          unfolding seteq alleq using True by (simp add: test_bit_bitmap_def)
      next
        case False
        have "set_range_loop n f l i bits utd = set_range_loop n f l (i + 1) bits False"
          using False nin lt by (subst set_range_loop.simps) auto
        also note "1.IH"(2) [OF lt nin False]
        finally show ?thesis
          unfolding seteq alleq using False by (simp add: test_bit_bitmap_def)
      qed
    qed
  qed
qed

lemma blocks_covered_eq:
  assumes "0 < len"
  shows "blocks_covered blkbits off len = {off div 2 ^ blkbits .. (off + len - 1) div 2 ^ blkbits}"
proof -
  have pos: "(0::int) < 2 ^ blkbits" by simp
  have a: "(b * 2 ^ blkbits < off + len) = (b \<le> (off + len - 1) div 2 ^ blkbits)" for b
    using mult_le_iff_le_div [OF pos, of b "off + len - 1"] by linarith
  show ?thesis
    unfolding blocks_covered_def using a less_mult_iff_div_le [OF pos] by auto
qed

lemma u32_id: "0 \<le> x \<Longrightarrow> x < 2 ^ 32 \<Longrightarrow> u32 x = x"
  by (simp add: u32_def)

lemma blocks_covered_in_page:
  assumes "0 \<le> off" "0 < len" "off + len \<le> PAGE_SIZE" "blkbits \<le> PAGE_SHIFT"
    and "b \<in> blocks_covered blkbits off len"
  shows "0 \<le> b \<and> b < PAGE_SIZE div 2 ^ blkbits"
proof -
  have pos: "(0::int) < 2 ^ blkbits" by simp
  from assms(5) have b1: "b * 2 ^ blkbits < off + len" and b2: "off < (b + 1) * 2 ^ blkbits"
    by (auto simp: blocks_covered_def)
  have "off div 2 ^ blkbits \<le> b" using b2 less_mult_iff_div_le [OF pos] by simp
  moreover have "0 \<le> off div 2 ^ blkbits" using assms(1) pos by (simp add: pos_imp_zdiv_nonneg_iff)
  ultimately have "0 \<le> b" by linarith
  have "(b + 1) * 2 ^ blkbits \<le> PAGE_SIZE"
  proof -
    have "b * 2 ^ blkbits < PAGE_SIZE" using b1 assms(3) by linarith
    have dv: "(2::int) ^ blkbits dvd PAGE_SIZE"
      using assms(4) by (simp add: PAGE_SIZE_def le_imp_power_dvd)
    then obtain k where k: "PAGE_SIZE = 2 ^ blkbits * k" by (auto simp: dvd_def)
    have "b * 2 ^ blkbits < k * 2 ^ blkbits"
      using \<open>b * 2 ^ blkbits < PAGE_SIZE\<close> k by (simp add: mult.commute)
    then have "b < k" using pos by (simp only: mult_less_cancel_right_pos)
    then have "b + 1 \<le> k" by simp
    then have "(b + 1) * 2 ^ blkbits \<le> k * 2 ^ blkbits" using pos by (intro mult_right_mono) auto
    moreover have "k * 2 ^ blkbits = PAGE_SIZE" unfolding k by (rule mult.commute)
    ultimately show ?thesis by (rule ord_le_eq_trans)
  qed
  then have "b + 1 \<le> PAGE_SIZE div 2 ^ blkbits" using mult_le_iff_le_div [OF pos] by simp
  with \<open>0 \<le> b\<close> show ?thesis by simp
qed

text \<open>
  C8: on a page with a block bitmap and for a non-empty range inside the page,
  \<^verbatim>\<open>iomap_set_range_uptodate\<close> sets exactly the bits of the blocks that the range covers
  (the bitmap becomes the old one joined with \<open>blocks_covered\<close>), and sets the page's
  uptodate flag if and only if every block of the page then has its bit set and the page
  does not carry the error flag; a flag that was already set stays set, and nothing else
  of the page changes.
\<close>

theorem set_range_uptodate_bits:
  assumes iop: "pg_private p = Some iop"
    and bb: "blkbits \<le> PAGE_SHIFT"
    and rng: "0 \<le> off" "0 < len" "off + len \<le> PAGE_SIZE"
  shows "iomap_set_range_uptodate blkbits p off len =
           p\<lparr>pg_uptodate := pg_uptodate p \<or>
                 ((\<forall>b. 0 \<le> b \<and> b < PAGE_SIZE div 2 ^ blkbits \<longrightarrow>
                        b \<in> uptodate iop \<union> blocks_covered blkbits off len) \<and> \<not> pg_error p),
              pg_private := Some (iop\<lparr>uptodate := uptodate iop \<union> blocks_covered blkbits off len\<rparr>)\<rparr>"
proof -
  let ?n = "PAGE_SIZE div 2 ^ blkbits"
  let ?f = "off div 2 ^ blkbits"
  let ?l = "(off + len - 1) div 2 ^ blkbits"
  have ps: "PAGE_SIZE = 4096" by (simp add: PAGE_SIZE_def PAGE_SHIFT_def)
  have u: "u32 (off + len - 1) = off + len - 1"
    using rng ps by (intro u32_id) auto
  have "(2::int) ^ blkbits \<le> 2 ^ PAGE_SHIFT" using bb by (intro power_increasing) auto
  then have bs: "i_blocksize blkbits = 2 ^ blkbits"
    unfolding i_blocksize_def by (intro u32_id) (auto simp: PAGE_SHIFT_def)
  have cov: "blocks_covered blkbits off len = {?f .. ?l}"
    using rng by (intro blocks_covered_eq)
  have inpage: "\<And>b. b \<in> {?f .. ?l} \<Longrightarrow> 0 \<le> b \<and> b < ?n"
    using blocks_covered_in_page [OF rng bb] cov by blast
  have s1: "{j. 0 \<le> j \<and> j < ?n \<and> ?f \<le> j \<and> j \<le> ?l} = {?f .. ?l}"
    using inpage by auto
  have s2: "(\<forall>j. 0 \<le> j \<and> j < ?n \<and> \<not> (?f \<le> j \<and> j \<le> ?l) \<longrightarrow> j \<in> uptodate iop)
        = (\<forall>b. 0 \<le> b \<and> b < ?n \<longrightarrow> b \<in> uptodate iop \<union> {?f .. ?l})"
    by auto
  have loop: "set_range_loop ?n ?f ?l 0 (uptodate iop) True =
      (uptodate iop \<union> {?f .. ?l},
       \<forall>b. 0 \<le> b \<and> b < ?n \<longrightarrow> b \<in> uptodate iop \<union> {?f .. ?l})"
    unfolding set_range_loop_eq s1 s2 by simp
  have step: "iomap_set_range_uptodate blkbits p off len =
     (let p1 = p\<lparr>pg_private := Some (iop\<lparr>uptodate := uptodate iop \<union> {?f .. ?l}\<rparr>)\<rparr>;
          utd = (\<forall>b. 0 \<le> b \<and> b < ?n \<longrightarrow> b \<in> uptodate iop \<union> {?f .. ?l})
      in if utd \<and> \<not> pg_error p1 then SetPageUptodate p1 else p1)"
    unfolding iomap_set_range_uptodate_def Let_def u bs iop option.case loop prod.case ..
  show ?thesis
  proof (cases "(\<forall>b. 0 \<le> b \<and> b < ?n \<longrightarrow> b \<in> uptodate iop \<union> {?f .. ?l}) \<and> \<not> pg_error p")
    case True
    then show ?thesis
      unfolding step cov Let_def by (simp add: SetPageUptodate_def)
  next
    case False
    then show ?thesis
      unfolding step cov Let_def by (cases p) (auto simp: SetPageUptodate_def)
  qed
qed

theorem set_range_uptodate_bits_witness:
  "pg_private \<lparr>pg_index = 0, pg_uptodate = False, pg_dirty = False, pg_writeback = False,
       pg_locked = True, pg_error = False,
       pg_private = Some \<lparr>read_count = 1, write_count = 0, uptodate = {0, 1}\<rparr>\<rparr>
     = Some \<lparr>read_count = 1, write_count = 0, uptodate = {0, 1}\<rparr> \<and>
   (10::nat) \<le> PAGE_SHIFT \<and> (0::int) \<le> 2048 \<and> (0::int) < 2048 \<and> 2048 + 2048 \<le> PAGE_SIZE \<and>
   iomap_set_range_uptodate 10
     \<lparr>pg_index = 0, pg_uptodate = False, pg_dirty = False, pg_writeback = False,
       pg_locked = True, pg_error = False,
       pg_private = Some \<lparr>read_count = 1, write_count = 0, uptodate = {0, 1}\<rparr>\<rparr> 2048 2048
     = \<lparr>pg_index = 0, pg_uptodate = True, pg_dirty = False, pg_writeback = False,
       pg_locked = True, pg_error = False,
       pg_private = Some \<lparr>read_count = 1, write_count = 0, uptodate = {0, 1, 2, 3}\<rparr>\<rparr>"
proof -
  have c: "blocks_covered 10 2048 2048 = {2, 3}"
    by (subst blocks_covered_eq) auto
  have a: "(\<forall>b::int. 0 \<le> b \<and> b < 4 \<longrightarrow> b = 0 \<or> b = 1 \<or> b = 2 \<or> b = 3)" by presburger
  show ?thesis
    using set_range_uptodate_bits [of
     "\<lparr>pg_index = 0, pg_uptodate = False, pg_dirty = False, pg_writeback = False,
       pg_locked = True, pg_error = False,
       pg_private = Some \<lparr>read_count = 1, write_count = 0, uptodate = {0, 1}\<rparr>\<rparr>"
     "\<lparr>read_count = 1, write_count = 0, uptodate = {0, 1}\<rparr>" 10 2048 2048] a
    by (simp add: c PAGE_SIZE_def PAGE_SHIFT_def) auto
qed

text \<open>
  C9: on a page without per-block state (block size equal to page size),
  \<^verbatim>\<open>iomap_set_range_uptodate\<close> marks the whole page uptodate for any range, however
  small, unless the page carries the error flag; nothing else of the page changes.
\<close>

theorem set_range_uptodate_no_iop:
  assumes "pg_private p = None" and "\<not> pg_error p"
  shows "iomap_set_range_uptodate blkbits p off len = p\<lparr>pg_uptodate := True\<rparr>"
  using assms by (simp add: iomap_set_range_uptodate_def SetPageUptodate_def)

theorem set_range_uptodate_no_iop_witness:
  "pg_private \<lparr>pg_index = 3, pg_uptodate = False, pg_dirty = False, pg_writeback = False,
       pg_locked = True, pg_error = False, pg_private = None\<rparr> = None \<and>
   \<not> pg_error \<lparr>pg_index = 3, pg_uptodate = False, pg_dirty = False, pg_writeback = False,
       pg_locked = True, pg_error = False, pg_private = None\<rparr> \<and>
   iomap_set_range_uptodate 12
     \<lparr>pg_index = 3, pg_uptodate = False, pg_dirty = False, pg_writeback = False,
       pg_locked = True, pg_error = False, pg_private = None\<rparr> 100 10
   = \<lparr>pg_index = 3, pg_uptodate = True, pg_dirty = False, pg_writeback = False,
       pg_locked = True, pg_error = False, pg_private = None\<rparr>"
  using set_range_uptodate_no_iop [of
     "\<lparr>pg_index = 3, pg_uptodate = False, pg_dirty = False, pg_writeback = False,
       pg_locked = True, pg_error = False, pg_private = None\<rparr>" 12 100 10]
  by simp

section \<open>Properties of ioend merging\<close>











section \<open>Properties of read completion\<close>

lemma set_range_uptodate_private:
  assumes "pg_private p = Some iop"
  shows "\<exists>bits. pg_private (iomap_set_range_uptodate b p off len) = Some (iop\<lparr>uptodate := bits\<rparr>)"
    and "pg_index (iomap_set_range_uptodate b p off len) = pg_index p"
    and "pg_locked (iomap_set_range_uptodate b p off len) = pg_locked p"
  using assms
  by (auto simp: iomap_set_range_uptodate_def Let_def SetPageUptodate_def split: prod.splits)

lemma read_page_end_io_step:
  assumes "pg_private p = Some iop"
  shows "\<exists>p1 iop1. iomap_read_page_end_io b bv err p =
            (p1, if s32 (read_count iop - 1) = 0 then [Unlock_page (pg_index p)] else []) \<and>
          pg_private p1 = Some iop1 \<and> read_count iop1 = s32 (read_count iop - 1) \<and>
          pg_index p1 = pg_index p \<and>
          pg_locked p1 = (s32 (read_count iop - 1) \<noteq> 0 \<and> pg_locked p)"
proof (cases "err \<noteq> 0")
  case True
  then show ?thesis using assms
    by (simp add: iomap_read_page_end_io_def iomap_read_finish_def atomic_dec_and_test_def Let_def
        SetPageError_def ClearPageUptodate_def unlock_page_def)
next
  case False
  from set_range_uptodate_private [OF assms, of b "bv_offset bv" "bv_len bv"]
  obtain bits where
    "pg_private (iomap_set_range_uptodate b p (bv_offset bv) (bv_len bv)) = Some (iop\<lparr>uptodate := bits\<rparr>)"
    "pg_index (iomap_set_range_uptodate b p (bv_offset bv) (bv_len bv)) = pg_index p"
    "pg_locked (iomap_set_range_uptodate b p (bv_offset bv) (bv_len bv)) = pg_locked p"
    by blast
  then show ?thesis using False
    by (simp add: iomap_read_page_end_io_def iomap_read_finish_def atomic_dec_and_test_def Let_def
        unlock_page_def)
qed

lemma s32_id: "- (2 ^ 31) \<le> x \<Longrightarrow> x < 2 ^ 31 \<Longrightarrow> s32 x = x"
  by (simp add: s32_def)

lemma read_completions_count:
  assumes "pg_private p = Some iop" "read_count iop = int k" "length cs \<le> k" "0 < k" "k < 2 ^ 31"
  shows "\<exists>p' iop'. read_completions b cs p =
            (p', if length cs = k then [Unlock_page (pg_index p)] else []) \<and>
          pg_private p' = Some iop' \<and> read_count iop' = int k - int (length cs) \<and>
          pg_locked p' = (length cs \<noteq> k \<and> pg_locked p)"
  using assms
proof (induction cs arbitrary: p iop k)
  case Nil
  then show ?case by simp
next
  case (Cons c cs)
  obtain bv err where c: "c = (bv, err)" by (cases c)
  have "int k < 2 ^ 31" using Cons.prems(5) by (metis of_nat_less_numeral_power_cancel_iff)
  then have "s32 (int k - 1) = int k - 1"
    using Cons.prems(4) by (intro s32_id) auto
  then have k1: "s32 (read_count iop - 1) = int k - 1"
    using Cons.prems(2) by simp
  from read_page_end_io_step [OF Cons.prems(1), of b bv err] k1 obtain p1 iop1 where
    st: "iomap_read_page_end_io b bv err p =
            (p1, if int k - 1 = 0 then [Unlock_page (pg_index p)] else [])"
      "pg_private p1 = Some iop1" "read_count iop1 = int k - 1" "pg_index p1 = pg_index p"
      "pg_locked p1 = (int k - 1 \<noteq> 0 \<and> pg_locked p)"
    by auto
  show ?case
  proof (cases "k = 1")
    case True
    with Cons.prems have "cs = []" by simp
    with st True c show ?thesis by simp
  next
    case False
    with Cons.prems have k: "read_count iop1 = int (k - 1)" "length cs \<le> k - 1" "0 < k - 1" "k - 1 < 2 ^ 31"
      using st(3) by auto
    from Cons.IH [OF st(2) k] obtain p' iop' where
      "read_completions b cs p1 = (p', if length cs = k - 1 then [Unlock_page (pg_index p1)] else [])"
      "pg_private p' = Some iop'" "read_count iop' = int (k - 1) - int (length cs)"
      "pg_locked p' = (length cs \<noteq> k - 1 \<and> pg_locked p1)"
      by blast
    with st False c Cons.prems(4) show ?thesis by (auto simp: Let_def)
  qed
qed

text \<open>
  C6: with per-block state, \<^verbatim>\<open>iomap_read_finish\<close> decrements \<open>read_count\<close> and unlocks
  the page exactly when the decrement reaches zero. When \<open>read_count\<close> holds the number
  \<open>N\<close> of the outstanding sub-range completions, then for every order \<open>cs'\<close> of these
  completions, failed or not, running them all unlocks the page exactly once (the only
  event is one unlock), and the page ends unlocked.
\<close>

theorem read_completions_unlock_once:
  assumes "pg_private p = Some iop" and "read_count iop = int (length cs)"
    and "0 < length cs" and "length cs < 2 ^ 31" and "mset cs' = mset cs"
  shows "(case iomap_read_finish p of
            (p1, ev) \<Rightarrow> (ev = [Unlock_page (pg_index p)]) = (s32 (read_count iop - 1) = 0) \<and>
                         (ev = []) = (s32 (read_count iop - 1) \<noteq> 0)) \<and>
         (case read_completions b cs' p of
            (p', ev) \<Rightarrow> ev = [Unlock_page (pg_index p)] \<and> \<not> pg_locked p')"
proof -
  have len: "length cs' = length cs" using assms(5) by (rule mset_eq_length)
  from read_completions_count [OF assms(1), of "length cs" cs' b] assms(2-4) len
  have "case read_completions b cs' p of
            (p', ev) \<Rightarrow> ev = [Unlock_page (pg_index p)] \<and> \<not> pg_locked p'"
    by auto
  moreover have "case iomap_read_finish p of
            (p1, ev) \<Rightarrow> (ev = [Unlock_page (pg_index p)]) = (s32 (read_count iop - 1) = 0) \<and>
                         (ev = []) = (s32 (read_count iop - 1) \<noteq> 0)"
    using assms(1) by (simp add: iomap_read_finish_def atomic_dec_and_test_def Let_def)
  ultimately show ?thesis by simp
qed


theorem read_completions_unlock_once_witness:
  "pg_private page_two_reads = Some \<lparr>read_count = 2, write_count = 0, uptodate = {}\<rparr> \<and>
   read_count \<lparr>read_count = 2, write_count = 0, uptodate = {}\<rparr> = int (length [(seg_lo, 0::int), (seg_hi, 0)]) \<and>
   0 < length [(seg_lo, 0::int), (seg_hi, 0)] \<and>
   length [(seg_lo, 0::int), (seg_hi, 0)] < 2 ^ 31 \<and>
   mset [(seg_hi, 0::int), (seg_lo, 0)] = mset [(seg_lo, 0), (seg_hi, 0)] \<and>
   snd (read_completions 11 [(seg_hi, 0), (seg_lo, 0)] page_two_reads) = [Unlock_page 5] \<and>
   \<not> pg_locked (fst (read_completions 11 [(seg_hi, 0), (seg_lo, 0)] page_two_reads))"
  using read_completions_unlock_once [of page_two_reads
      "\<lparr>read_count = 2, write_count = 0, uptodate = {}\<rparr>"
      "[(seg_lo, 0), (seg_hi, 0)]" "[(seg_hi, 0), (seg_lo, 0)]" 11]
  by (simp add: page_two_reads_def split: prod.splits)

section \<open>Properties of \<^verbatim>\<open>iomap_readpage\<close>\<close>

lemma warn_on_once_page [simp]: "cur_page (warn_on_once c st) = cur_page st"
  by (simp add: warn_on_once_def)

lemma readpage_loop_returns:
  assumes contract: "\<And>st pos len. 0 < len \<Longrightarrow> fst (ap st pos len) \<le> len"
    and "0 \<le> poff" and "case ret of None \<Rightarrow> True | Some r \<Rightarrow> 0 < r"
  shows "\<exists>r st'. readpage_loop ap poff ret st = Some (r, st') \<and>
           (r = None \<longrightarrow> ret = None \<and> PAGE_SIZE \<le> poff) \<and>
           (\<forall>v. r = Some v \<and> v \<le> 0 \<longrightarrow> pg_error (cur_page st'))"
  using assms(2,3)
proof (induction "nat (PAGE_SIZE - poff)" arbitrary: poff ret st rule: less_induct)
  case less
  show ?case
  proof (cases "poff < PAGE_SIZE")
    case False
    then show ?thesis using less.prems
      by (subst readpage_loop.simps) (auto split: option.splits)
  next
    case True
    obtain r st1 where a: "ap st (s64 (page_offset (cur_page st) + poff)) (PAGE_SIZE - poff) = (r, st1)"
      by (cases "ap st (s64 (page_offset (cur_page st) + poff)) (PAGE_SIZE - poff)")
    show ?thesis
    proof (cases "r \<le> 0")
      case True
      then show ?thesis using \<open>poff < PAGE_SIZE\<close> a
        by (subst readpage_loop.simps) (simp add: SetPageError_def)
    next
      case False
      have "r \<le> PAGE_SIZE - poff"
        using contract [of "PAGE_SIZE - poff" st "s64 (page_offset (cur_page st) + poff)"] a True
        by simp
      then have b: "0 \<le> poff + r" "poff + r \<le> PAGE_SIZE" using False less.prems(1) by auto
      then have u: "u32 (poff + r) = poff + r"
        by (simp add: u32_def PAGE_SIZE_def PAGE_SHIFT_def)
      have "nat (PAGE_SIZE - (poff + r)) < nat (PAGE_SIZE - poff)" using False True by auto
      from less.hyps [OF this, of "Some r" st1] b False
      obtain r' st' where "readpage_loop ap (poff + r) (Some r) st1 = Some (r', st')"
        "r' \<noteq> None" "\<forall>v. r' = Some v \<and> v \<le> 0 \<longrightarrow> pg_error (cur_page st')"
        by auto
      then show ?thesis using \<open>poff < PAGE_SIZE\<close> a False u
        by (subst readpage_loop.simps) (auto split: option.splits)
    qed
  qed
qed


text \<open>
  C10: whatever \<^verbatim>\<open>iomap_apply\<close> does, a value that \<^verbatim>\<open>iomap_readpage\<close> returns is 0.
  When \<^verbatim>\<open>iomap_apply\<close> never claims more bytes than it was asked for, the loop ends and
  \<^verbatim>\<open>iomap_readpage\<close> does return 0; if the last \<^verbatim>\<open>iomap_apply\<close> failed (\<open>ret \<le> 0\<close>,
  also partway through the page), the page carries the error flag on return.
\<close>

theorem readpage_returns_zero:
  "(\<forall>r st'. iomap_readpage ap p = Some (r, st') \<longrightarrow> r = 0) \<and>
   ((\<forall>st pos len. 0 < len \<longrightarrow> fst (ap st pos len) \<le> len) \<longrightarrow>
      (\<exists>ret st1 st'. readpage_loop ap 0 None (readpage_init p) = Some (Some ret, st1) \<and>
          iomap_readpage ap p = Some (0, st') \<and>
          (ret \<le> 0 \<longrightarrow> pg_error (cur_page st'))))"
proof (intro conjI allI impI)
  fix r st'
  assume "iomap_readpage ap p = Some (r, st')"
  then show "r = 0"
    by (auto simp: iomap_readpage_def split: option.splits prod.splits)
next
  assume c: "\<forall>st pos len. 0 < len \<longrightarrow> fst (ap st pos len) \<le> len"
  have "\<exists>r st'. readpage_loop ap 0 None (readpage_init p) = Some (r, st') \<and>
           (r = None \<longrightarrow> None = (None :: int option) \<and> PAGE_SIZE \<le> 0) \<and>
           (\<forall>v. r = Some v \<and> v \<le> 0 \<longrightarrow> pg_error (cur_page st'))"
    using c by (intro readpage_loop_returns) auto
  then obtain ret st1 where
    l: "readpage_loop ap 0 None (readpage_init p) = Some (Some ret, st1)"
       "ret \<le> 0 \<longrightarrow> pg_error (cur_page st1)"
    by (auto simp: PAGE_SIZE_def)
  have "\<exists>st'. iomap_readpage ap p = Some (0, st') \<and> pg_error (cur_page st') = pg_error (cur_page st1)"
    using l(1) unfolding iomap_readpage_def readpage_init_def [symmetric]
    by (auto simp: unlock_page_def Let_def split: option.splits)
  with l show "\<exists>ret st1 st'. readpage_loop ap 0 None (readpage_init p) = Some (Some ret, st1) \<and>
          iomap_readpage ap p = Some (0, st') \<and> (ret \<le> 0 \<longrightarrow> pg_error (cur_page st'))"
    by auto
qed


theorem readpage_returns_zero_witness:
  "iomap_readpage apply_fails_second page_locked_clean =
     Some (0, \<lparr>cur_page = page_locked_clean\<lparr>pg_locked := False, pg_error := True\<rparr>,
               cur_page_in_bio = False, ctx_bio = None, events = [Unlock_page 0]\<rparr>)"
proof -
  have c: "\<forall>st pos len. 0 < len \<longrightarrow> fst (apply_fails_second st pos len) \<le> len"
    by (simp add: apply_fails_second_def)
  from readpage_returns_zero [of apply_fails_second page_locked_clean] c
  obtain ret st1 st' where
    "readpage_loop apply_fails_second 0 None (readpage_init page_locked_clean) = Some (Some ret, st1)"
    "iomap_readpage apply_fails_second page_locked_clean = Some (0, st')"
    by blast
  moreover have "readpage_loop apply_fails_second 0 None (readpage_init page_locked_clean) =
      Some (Some (- 5), \<lparr>cur_page = page_locked_clean\<lparr>pg_error := True\<rparr>,
               cur_page_in_bio = False, ctx_bio = None, events = []\<rparr>)"
    by (simp add: readpage_loop.simps [of _ 0] readpage_loop.simps [of _ 1024] apply_fails_second_def
        readpage_init_def page_locked_clean_def page_offset_def s64_def u32_def PAGE_SIZE_def
        PAGE_SHIFT_def warn_on_once_def SetPageError_def)
  ultimately show ?thesis
    by (simp add: iomap_readpage_def warn_on_once_def unlock_page_def page_locked_clean_def)
qed

section \<open>Properties of zeroing\<close>

lemma zero_range_actor_hole:
  "logically_zero iomap \<Longrightarrow> iomap_zero_range_actor is_dax dz pz st pos cnt iomap = (cnt, st)"
  by (simp add: iomap_zero_range_actor_def logically_zero_def)

lemma zero_range_while_hole:
  assumes "maps_zero_range mapper pos len" and "- (2 ^ 63) \<le> pos" and "pos + len < 2 ^ 63"
  shows "zero_range_while (iomap_apply mapper (iomap_zero_range_actor is_dax dz pz)) st pos len = (0, st)"
  using assms
proof (induction "nat len" arbitrary: pos len rule: less_induct)
  case less
  show ?case
  proof (cases "len > 0")
    case False
    then show ?thesis by (subst zero_range_while.simps) simp
  next
    case True
    with less.prems(1) obtain iomap where
      m: "mapper pos len = Inr iomap" "logically_zero iomap"
         "iomap_offset iomap \<le> pos" "pos < iomap_offset iomap + iomap_length iomap"
      unfolding maps_zero_range_def by (metis add.commute less_add_same_cancel2 order_refl)
    define ret where "ret = min len (iomap_offset iomap + iomap_length iomap - pos)"
    have ap: "iomap_apply mapper (iomap_zero_range_actor is_dax dz pz) st pos len = (ret, st)"
      using m by (simp add: iomap_apply_def zero_range_actor_hole ret_def)
    have r: "0 < ret" "ret \<le> len" using True m by (auto simp: ret_def)
    have s: "s64 (pos + ret) = pos + ret"
      using r less.prems(2,3) by (simp add: s64_def)
    have "maps_zero_range mapper (pos + ret) (len - ret)"
      using less.prems(1) r unfolding maps_zero_range_def by auto
    moreover have "nat (len - ret) < nat len" using r True by auto
    ultimately have "zero_range_while (iomap_apply mapper (iomap_zero_range_actor is_dax dz pz)) st
        (pos + ret) (len - ret) = (0, st)"
      using less.hyps [of "len - ret" "pos + ret"] less.prems(2,3) r by auto
    then show ?thesis using True ap r s
      by (subst zero_range_while.simps) simp
  qed
qed

text \<open>
  C4: on a hole or an unwritten extent \<^verbatim>\<open>iomap_zero_range_actor\<close> returns the whole count
  it was given and leaves the state as it was, whatever the two zeroing functions would do:
  no device I/O and no write to the page cache. So \<^verbatim>\<open>iomap_zero_range\<close> over a range
  that the mapper answers with such extents returns 0 with the state unchanged.
\<close>

theorem zero_range_hole_no_io:
  assumes "maps_zero_range mapper pos len" and "- (2 ^ 63) \<le> pos" and "pos + len < 2 ^ 63"
  shows "(\<forall>iomap p cnt. logically_zero iomap \<longrightarrow>
            iomap_zero_range_actor is_dax dax_zero page_zero st p cnt iomap = (cnt, st)) \<and>
         iomap_zero_range mapper is_dax dax_zero page_zero st pos len = (0, st)"
  by (simp add: iomap_zero_range_def zero_range_while_hole [OF assms] zero_range_actor_hole)

theorem zero_range_hole_no_io_witness:
  "iomap_zero_range hole_then_unwritten False logging_zero logging_zero
     \<lparr>did_zero = Some False, world = []\<rparr> 1000 5000 = (0, \<lparr>did_zero = Some False, world = []\<rparr>)"
proof -
  have "maps_zero_range hole_then_unwritten 1000 5000"
    by (auto simp: maps_zero_range_def hole_then_unwritten_def logically_zero_def)
  from zero_range_hole_no_io [OF this, of False logging_zero logging_zero "\<lparr>did_zero = Some False, world = []\<rparr>"]
  show ?thesis by simp
qed

section \<open>Properties of \<^verbatim>\<open>iomap_adjust_read_range\<close>\<close>




















section \<open>Properties of \<^verbatim>\<open>__iomap_write_begin\<close>\<close>



















section \<open>Properties of \<^verbatim>\<open>iomap_writepage_map\<close>\<close>













section \<open>Properties of the write path\<close>

text \<open>
  C3: a short copy (\<open>copied < len\<close>) into a page that is not uptodate makes
  \<^verbatim>\<open>__iomap_write_end\<close> return 0, never a partial count, and leaves the page as it was:
  no block bit, no uptodate flag and no dirty flag is set.
\<close>

theorem write_end_short_copy_returns_zero:
  assumes "copied < len" and "\<not> pg_uptodate p"
  shows "raw_iomap_write_end blkbits pos len copied p = (0, p)"
  using assms by (simp add: raw_iomap_write_end_def)

theorem write_end_short_copy_returns_zero_witness:
  "(100::int) < 512 \<and>
   \<not> pg_uptodate \<lparr>pg_index = 0, pg_uptodate = False, pg_dirty = False, pg_writeback = False,
       pg_locked = True, pg_error = False,
       pg_private = Some \<lparr>read_count = 0, write_count = 0, uptodate = {}\<rparr>\<rparr> \<and>
   raw_iomap_write_end 10 0 512 100
     \<lparr>pg_index = 0, pg_uptodate = False, pg_dirty = False, pg_writeback = False,
       pg_locked = True, pg_error = False,
       pg_private = Some \<lparr>read_count = 0, write_count = 0, uptodate = {}\<rparr>\<rparr>
   = (0, \<lparr>pg_index = 0, pg_uptodate = False, pg_dirty = False, pg_writeback = False,
       pg_locked = True, pg_error = False,
       pg_private = Some \<lparr>read_count = 0, write_count = 0, uptodate = {}\<rparr>\<rparr>)"
  using write_end_short_copy_returns_zero [of 100 512
     "\<lparr>pg_index = 0, pg_uptodate = False, pg_dirty = False, pg_writeback = False,
       pg_locked = True, pg_error = False,
       pg_private = Some \<lparr>read_count = 0, write_count = 0, uptodate = {}\<rparr>\<rparr>" 10 0]
  by simp

end
